theory Spec2Isabelle
  imports Main "HOL-Library.Sublist"
begin

section \<open>Python string primitives used by the detection functions\<close>

text \<open>
  The detection functions of \<^verbatim>\<open>BarPepDetection.py\<close> work on Python strings with
  \<^verbatim>\<open>str.upper\<close>, \<^verbatim>\<open>str.find\<close>, \<^verbatim>\<open>str.rfind\<close> and slicing. Strings are
  modelled as \<^typ>\<open>string\<close>, indices as \<^typ>\<open>int\<close> (Python integers are unbounded and
  the searches return \<open>-1\<close> for "not found"). Reads and flanks are ASCII text, for
  which \<^verbatim>\<open>upper\<close> changes the letters a to z only and keeps the length.
\<close>

definition upper_char :: "char \<Rightarrow> char" where
  "upper_char c =
     (case map_of (zip ''abcdefghijklmnopqrstuvwxyz'' ''ABCDEFGHIJKLMNOPQRSTUVWXYZ'') c of
        None \<Rightarrow> c
      | Some u \<Rightarrow> u)"

definition upper :: "string \<Rightarrow> string" where
  "upper s = map upper_char s"

text \<open>
  Index adjustment of \<^verbatim>\<open>find\<close>/\<^verbatim>\<open>rfind\<close>: an end beyond the length is cut to the
  length, a negative index counts from the end of the string and is cut to 0 when it is
  still negative. A start beyond the length is left as it is.
\<close>

definition adjust_start :: "int \<Rightarrow> int \<Rightarrow> int" where
  "adjust_start start n =
     (if start < 0 then (if start + n < 0 then 0 else start + n) else start)"

definition adjust_end :: "int \<Rightarrow> int \<Rightarrow> int" where
  "adjust_end stop n =
     (if stop > n then n
      else if stop < 0 then (if stop + n < 0 then 0 else stop + n)
      else stop)"

definition match_at :: "string \<Rightarrow> string \<Rightarrow> nat \<Rightarrow> bool" where
  "match_at s sub i = (take (length sub) (drop i s) = sub)"

text \<open>\<open>find_fwd s sub i k\<close> tries the \<open>k\<close> positions \<open>i, i+1, \<dots>\<close> upwards;
  \<open>find_bwd s sub lo k\<close> tries the \<open>k\<close> positions \<open>lo+k-1, \<dots>, lo\<close> downwards.\<close>

fun find_fwd :: "string \<Rightarrow> string \<Rightarrow> nat \<Rightarrow> nat \<Rightarrow> int" where
  "find_fwd s sub i 0 = - 1"
| "find_fwd s sub i (Suc k) =
     (if match_at s sub i then int i else find_fwd s sub (Suc i) k)"

fun find_bwd :: "string \<Rightarrow> string \<Rightarrow> nat \<Rightarrow> nat \<Rightarrow> int" where
  "find_bwd s sub lo 0 = - 1"
| "find_bwd s sub lo (Suc k) =
     (if match_at s sub (lo + k) then int (lo + k) else find_bwd s sub lo k)"

text \<open>\<^verbatim>\<open>s.find(sub, start, stop)\<close> and \<^verbatim>\<open>s.rfind(sub, start, stop)\<close>.\<close>

definition str_find :: "string \<Rightarrow> string \<Rightarrow> int \<Rightarrow> int \<Rightarrow> int" where
  "str_find s sub start stop =
     (let n = int (length s);
          m = int (length sub);
          st = adjust_start start n;
          en = adjust_end stop n
      in if en - st < m then - 1
         else find_fwd s sub (nat st) (nat (en - st - m + 1)))"

definition str_rfind :: "string \<Rightarrow> string \<Rightarrow> int \<Rightarrow> int \<Rightarrow> int" where
  "str_rfind s sub start stop =
     (let n = int (length s);
          m = int (length sub);
          st = adjust_start start n;
          en = adjust_end stop n
      in if en - st < m then - 1
         else find_bwd s sub (nat st) (nat (en - st - m + 1)))"

text \<open>The calls with defaulted arguments: a missing start is 0, a missing stop is the
  largest index, which the adjustment cuts to the length of the string.\<close>

definition find_all :: "string \<Rightarrow> string \<Rightarrow> int" where
  "find_all s sub = str_find s sub 0 (int (length s))"

definition find_from :: "string \<Rightarrow> string \<Rightarrow> int \<Rightarrow> int" where
  "find_from s sub start = str_find s sub start (int (length s))"

definition rfind_all :: "string \<Rightarrow> string \<Rightarrow> int" where
  "rfind_all s sub = str_rfind s sub 0 (int (length s))"

text \<open>The slice \<^verbatim>\<open>s[i:j]\<close> for integers \<open>i\<close> and \<open>j\<close>.\<close>

definition slice_index :: "int \<Rightarrow> int \<Rightarrow> int" where
  "slice_index k n =
     (if k < 0 then (if k + n < 0 then 0 else k + n)
      else if k > n then n else k)"

definition slice :: "string \<Rightarrow> int \<Rightarrow> int \<Rightarrow> string" where
  "slice s i j =
     (let n = int (length s);
          lo = slice_index i n;
          hi = slice_index j n
      in take (nat (hi - lo)) (drop (nat lo) s))"

section \<open>The two detection functions\<close>

datatype match_outcome = Found string | Missed

text \<open>
  The body of the loop of \<^verbatim>\<open>barcode_detection\<close> (lines 317-339), as a function of the
  upper-cased read \<open>ln\<close>: \<open>Found BCV\<close> stands for \<^verbatim>\<open>result.append(BCV)\<close>, \<open>Missed\<close> for
  \<^verbatim>\<open>no_constant_region+=1\<close>.
\<close>

definition barcode_scan ::
  "string \<Rightarrow> string \<Rightarrow> string \<Rightarrow> string \<Rightarrow> string \<Rightarrow> int \<Rightarrow> match_outcome" where
  "barcode_scan ln BCV_left BCV_right BCV_left_revcomp BCV_right_revcomp BCV_size =
     (let A = find_all ln BCV_right;
          B = find_all ln BCV_left
      in if A - B = BCV_size + int (length BCV_left)
         then Found (slice ln (B + int (length BCV_left)) A)
         else let C = rfind_all ln BCV_right
              in if C - B = BCV_size + int (length BCV_left)
                 then Found (slice ln (B + int (length BCV_left)) C)
                 else let D = find_all ln BCV_right_revcomp;
                          E = find_all ln BCV_left_revcomp
                      in if D - E = BCV_size + int (length BCV_left_revcomp)
                         then Found (slice ln (E + int (length BCV_left_revcomp)) D)
                         else let F = rfind_all ln BCV_right_revcomp
                              in if F - E = BCV_size + int (length BCV_left_revcomp)
                                 then Found (slice ln (E + int (length BCV_left_revcomp)) F)
                                 else Missed)"

text \<open>The body of the loop of \<^verbatim>\<open>barcode_detection_margin\<close> (lines 363-385).\<close>

definition barcode_scan_margin ::
  "string \<Rightarrow> string \<Rightarrow> string \<Rightarrow> int \<Rightarrow> int \<Rightarrow> string \<Rightarrow> string \<Rightarrow> int \<Rightarrow> int
     \<Rightarrow> match_outcome" where
  "barcode_scan_margin ln BCV_left BCV_right BCV_loc BCV_margin
       BCV_left_revcomp BCV_right_revcomp BCV_loc_revcomp BCV_size =
     (let A = find_from ln BCV_right (BCV_loc - BCV_margin + BCV_size);
          B = find_from ln BCV_left (BCV_loc - BCV_margin - int (length BCV_left))
      in if A - B = BCV_size + int (length BCV_left)
         then Found (slice ln (B + int (length BCV_left)) A)
         else let C = str_rfind ln BCV_right (BCV_loc - BCV_margin + BCV_size)
                        (BCV_loc + BCV_margin + BCV_size + int (length BCV_right))
              in if C - B = BCV_size + int (length BCV_left)
                 then Found (slice ln (B + int (length BCV_left)) C)
                 else let D = find_from ln BCV_right_revcomp
                                (BCV_loc_revcomp - BCV_margin + BCV_size);
                          E = find_from ln BCV_left_revcomp
                                (BCV_loc_revcomp - BCV_margin - int (length BCV_left))
                      in if D - E = BCV_size + int (length BCV_left_revcomp)
                         then Found (slice ln (E + int (length BCV_left_revcomp)) D)
                         else let F = str_rfind ln BCV_right_revcomp
                                        (BCV_loc_revcomp - BCV_margin + BCV_size)
                                        (BCV_loc_revcomp + BCV_margin + BCV_size
                                           + int (length BCV_right))
                              in if F - E = BCV_size + int (length BCV_left_revcomp)
                                 then Found (slice ln (E + int (length BCV_left_revcomp)) F)
                                 else Missed)"

text \<open>
  The four values a detection function returns. A read is the sequence string of a
  FASTQ record; \<^verbatim>\<open>len(line)\<close> is the length of that string. The progress message
  printed every ten million reads does not change the returned values and is left out.
\<close>

record scan_report =
  result :: "string list"
  read_count :: nat
  no_constant_region :: nat
  size_list :: "nat list"

definition empty_report :: scan_report where
  "empty_report = \<lparr>result = [], read_count = 0, no_constant_region = 0, size_list = []\<rparr>"

definition read_step :: "(string \<Rightarrow> match_outcome) \<Rightarrow> scan_report \<Rightarrow> string \<Rightarrow> scan_report" where
  "read_step scan st line =
     (let st1 = st\<lparr>read_count := read_count st + 1\<rparr>;
          st2 = st1\<lparr>size_list := size_list st1 @ [length line]\<rparr>;
          ln = upper line
      in case scan ln of
           Found BCV \<Rightarrow> st2\<lparr>result := result st2 @ [BCV]\<rparr>
         | Missed \<Rightarrow> st2\<lparr>no_constant_region := no_constant_region st2 + 1\<rparr>)"

definition barcode_detection ::
  "string list \<Rightarrow> string \<Rightarrow> string \<Rightarrow> string \<Rightarrow> string \<Rightarrow> int \<Rightarrow> scan_report" where
  "barcode_detection reads BCV_left BCV_right BCV_left_revcomp BCV_right_revcomp BCV_size =
     foldl (read_step (\<lambda>ln. barcode_scan ln BCV_left BCV_right
                               BCV_left_revcomp BCV_right_revcomp BCV_size))
       empty_report reads"

definition barcode_detection_margin ::
  "string list \<Rightarrow> string \<Rightarrow> string \<Rightarrow> int \<Rightarrow> int \<Rightarrow> string \<Rightarrow> string \<Rightarrow> int \<Rightarrow> int
     \<Rightarrow> scan_report" where
  "barcode_detection_margin reads BCV_left BCV_right BCV_loc BCV_margin
       BCV_left_revcomp BCV_right_revcomp BCV_loc_revcomp BCV_size =
     foldl (read_step (\<lambda>ln. barcode_scan_margin ln BCV_left BCV_right BCV_loc BCV_margin
                               BCV_left_revcomp BCV_right_revcomp BCV_loc_revcomp BCV_size))
       empty_report reads"

section \<open>Initialisation of the flanks and choice of the detection function\<close>

text \<open>
  Modelled from the spec: \<^verbatim>\<open>Seq.reverse_complement\<close> belongs to the Biopython library,
  which is not part of the repository. The reverse complement reverses the sequence and
  exchanges A with T and C with G; other letters are kept.
\<close>

definition complement :: "char \<Rightarrow> char" where
  "complement c =
     (case map_of (zip ''ACGTacgt'' ''TGCAtgca'') c of None \<Rightarrow> c | Some d \<Rightarrow> d)"

definition reverse_complement :: "string \<Rightarrow> string" where
  "reverse_complement s = rev (map complement s)"

text \<open>Lines 402-409: the flanks are upper-cased, the reverse-complement left flank is
  made from the right flank and the reverse-complement right flank from the left one.\<close>

record flank_spec =
  left :: string
  right :: string
  left_revcomp :: string
  right_revcomp :: string

definition init_flanks :: "string \<Rightarrow> string \<Rightarrow> flank_spec" where
  "init_flanks BCVleft BCVright =
     (let BCV_left = upper BCVleft;
          BCV_right = upper BCVright
      in \<lparr>left = BCV_left,
          right = BCV_right,
          left_revcomp = upper (reverse_complement BCV_right),
          right_revcomp = upper (reverse_complement BCV_left)\<rparr>)"

text \<open>
  Lines 495-500 (and 652-657): \<^verbatim>\<open>not x\<close> on an optional integer argument is true
  when the argument is \<^verbatim>\<open>None\<close> and when it is \<open>0\<close>. In the other branch all three
  window arguments are present, so the last case of \<open>detect\<close> is never taken. The
  insert size is an integer: the length of the first barcode in mode BC, the parsed
  \<^verbatim>\<open>--BCVsize\<close> in mode PV.
\<close>

definition py_not :: "int option \<Rightarrow> bool" where
  "py_not x = (case x of None \<Rightarrow> True | Some v \<Rightarrow> v = 0)"

definition detect ::
  "string list \<Rightarrow> string \<Rightarrow> string \<Rightarrow> int option \<Rightarrow> int option \<Rightarrow> string \<Rightarrow> string
     \<Rightarrow> int option \<Rightarrow> int \<Rightarrow> scan_report" where
  "detect reads BCV_left BCV_right BCV_loc BCV_margin
       BCV_left_revcomp BCV_right_revcomp BCV_loc_revcomp BCV_size =
     (if py_not BCV_loc \<or> py_not BCV_margin \<or> py_not BCV_loc_revcomp
      then barcode_detection reads BCV_left BCV_right BCV_left_revcomp BCV_right_revcomp
             BCV_size
      else (case (BCV_loc, BCV_margin, BCV_loc_revcomp) of
              (Some loc, Some margin, Some loc_rc) \<Rightarrow>
                barcode_detection_margin reads BCV_left BCV_right loc margin
                  BCV_left_revcomp BCV_right_revcomp loc_rc BCV_size
            | _ \<Rightarrow> barcode_detection reads BCV_left BCV_right BCV_left_revcomp
                     BCV_right_revcomp BCV_size))"

section \<open>The scanners as the specification words them\<close>

text \<open>
  The specification describes both scanners by occurrences of a flank in the read. An
  occurrence of \<open>sub\<close> at index \<open>i\<close> of \<open>s\<close> is a position at which \<open>sub\<close> is a prefix
  of the rest of \<open>s\<close>. The index of a flank that does not occur is the sentinel \<open>-1\<close>,
  smaller than every position. The substring between \<open>i\<close> and \<open>j\<close> holds the \<open>j - i\<close>
  characters from position \<open>i\<close> on.
\<close>

definition occurs_at :: "string \<Rightarrow> string \<Rightarrow> nat \<Rightarrow> bool" where
  "occurs_at s sub i = (i \<le> length s \<and> prefix sub (drop i s))"

definition occurrences :: "string \<Rightarrow> string \<Rightarrow> nat list" where
  "occurrences s sub = filter (occurs_at s sub) [0..<Suc (length s)]"

definition first_occurrence :: "string \<Rightarrow> string \<Rightarrow> int" where
  "first_occurrence s sub = (case occurrences s sub of [] \<Rightarrow> - 1 | i # _ \<Rightarrow> int i)"

definition last_occurrence :: "string \<Rightarrow> string \<Rightarrow> int" where
  "last_occurrence s sub = (case rev (occurrences s sub) of [] \<Rightarrow> - 1 | i # _ \<Rightarrow> int i)"

definition substring_between :: "string \<Rightarrow> int \<Rightarrow> int \<Rightarrow> string" where
  "substring_between s i j = take (nat (j - i)) (drop (nat i) s)"

text \<open>Section 4.1 of the specification: the five branches in their order.\<close>

definition scan_spec ::
  "string \<Rightarrow> string \<Rightarrow> string \<Rightarrow> string \<Rightarrow> string \<Rightarrow> int \<Rightarrow> match_outcome" where
  "scan_spec read l r l_rc r_rc insert_size =
     (let A = first_occurrence read r;
          B = first_occurrence read l
      in if A - B = insert_size + int (length l)
         then Found (substring_between read (B + int (length l)) A)
         else let C = last_occurrence read r
              in if C - B = insert_size + int (length l)
                 then Found (substring_between read (B + int (length l)) C)
                 else let D = first_occurrence read r_rc;
                          E = first_occurrence read l_rc
                      in if D - E = insert_size + int (length l_rc)
                         then Found (substring_between read (E + int (length l_rc)) D)
                         else let F = last_occurrence read r_rc
                              in if F - E = insert_size + int (length l_rc)
                                 then Found (substring_between read (E + int (length l_rc)) F)
                                 else Missed)"

text \<open>
  Section 4.2 of the specification: a search that starts at \<open>start\<close> takes the first
  occurrence at or after \<open>start\<close>; a last-occurrence search bounded to the half-open range
  from \<open>lo\<close> to \<open>hi\<close> takes the last occurrence that lies within the range. The
  reverse-complement searches are those of the forward strand with \<open>loc_rc\<close>, \<open>l_rc\<close>
  and \<open>r_rc\<close> in place of \<open>loc\<close>, \<open>l\<close> and \<open>r\<close>.
\<close>

definition first_occurrence_from :: "string \<Rightarrow> string \<Rightarrow> int \<Rightarrow> int" where
  "first_occurrence_from s sub start =
     (case filter (\<lambda>i. start \<le> int i) (occurrences s sub) of
        [] \<Rightarrow> - 1
      | i # _ \<Rightarrow> int i)"

definition last_occurrence_within :: "string \<Rightarrow> string \<Rightarrow> int \<Rightarrow> int \<Rightarrow> int" where
  "last_occurrence_within s sub lo hi =
     (case rev (filter (\<lambda>i. lo \<le> int i \<and> int i + int (length sub) \<le> hi)
                  (occurrences s sub)) of
        [] \<Rightarrow> - 1
      | i # _ \<Rightarrow> int i)"

definition scan_windowed_spec ::
  "string \<Rightarrow> string \<Rightarrow> string \<Rightarrow> int \<Rightarrow> int \<Rightarrow> string \<Rightarrow> string \<Rightarrow> int \<Rightarrow> int
     \<Rightarrow> match_outcome" where
  "scan_windowed_spec read l r loc margin l_rc r_rc loc_rc insert_size =
     (let A = first_occurrence_from read r (loc - margin + insert_size);
          B = first_occurrence_from read l (loc - margin - int (length l))
      in if A - B = insert_size + int (length l)
         then Found (substring_between read (B + int (length l)) A)
         else let C = last_occurrence_within read r (loc - margin + insert_size)
                        (loc + margin + insert_size + int (length r))
              in if C - B = insert_size + int (length l)
                 then Found (substring_between read (B + int (length l)) C)
                 else let D = first_occurrence_from read r_rc
                                (loc_rc - margin + insert_size);
                          E = first_occurrence_from read l_rc
                                (loc_rc - margin - int (length l_rc))
                      in if D - E = insert_size + int (length l_rc)
                         then Found (substring_between read (E + int (length l_rc)) D)
                         else let F = last_occurrence_within read r_rc
                                        (loc_rc - margin + insert_size)
                                        (loc_rc + margin + insert_size + int (length r_rc))
                              in if F - E = insert_size + int (length l_rc)
                                 then Found (substring_between read (E + int (length l_rc)) F)
                                 else Missed)"


section \<open>Results of the searches\<close>

text \<open>
  A search returns \<open>-1\<close> or a position at which the searched string fits into the
  read: the positions tried lie between the adjusted start and the adjusted end minus the
  length of the searched string.
\<close>

lemma find_fwd_cases:
  "find_fwd s sub i k = - 1
   \<or> (\<exists>j. find_fwd s sub i k = int j \<and> i \<le> j \<and> j < i + k \<and> match_at s sub j)"
proof (induction k arbitrary: i)
  case 0
  then show ?case by simp
next
  case (Suc k)
  show ?case
  proof (cases "match_at s sub i")
    case True
    then show ?thesis by auto
  next
    case False
    from Suc.IH [of "Suc i"] False show ?thesis by auto
  qed
qed

lemma find_bwd_cases:
  "find_bwd s sub lo k = - 1
   \<or> (\<exists>j. find_bwd s sub lo k = int j \<and> lo \<le> j \<and> j < lo + k \<and> match_at s sub j)"
proof (induction k)
  case 0
  then show ?case by simp
next
  case (Suc k)
  show ?case
  proof (cases "match_at s sub (lo + k)")
    case True
    then show ?thesis by (auto intro!: exI [of _ "lo + k"])
  next
    case False
    from Suc.IH False show ?thesis by auto
  qed
qed

lemma adjust_start_nonneg: "0 \<le> n \<Longrightarrow> 0 \<le> adjust_start start n"
  by (simp add: adjust_start_def)

lemma adjust_end_le: "0 \<le> n \<Longrightarrow> adjust_end stop n \<le> n"
  by (simp add: adjust_end_def)

lemma window_index_bound:
  fixes st en m n :: int and j :: nat
  assumes "0 \<le> st" "en \<le> n" "\<not> en - st < m" "nat st \<le> j" "j < nat st + nat (en - st - m + 1)"
  shows "0 \<le> int j \<and> int j + m \<le> n"
  using assms by linarith

lemma str_find_range:
  "str_find s sub start stop = - 1
   \<or> (0 \<le> str_find s sub start stop
        \<and> str_find s sub start stop + int (length sub) \<le> int (length s))"
proof -
  let ?n = "int (length s)" and ?m = "int (length sub)"
  let ?st = "adjust_start start ?n" and ?en = "adjust_end stop ?n"
  show ?thesis
  proof (cases "?en - ?st < ?m")
    case True
    then show ?thesis by (simp add: str_find_def Let_def)
  next
    case False
    then have eq: "str_find s sub start stop
        = find_fwd s sub (nat ?st) (nat (?en - ?st - ?m + 1))"
      by (simp add: str_find_def Let_def)
    have st: "0 \<le> ?st" and en: "?en \<le> ?n"
      by (simp_all add: adjust_start_nonneg adjust_end_le)
    from find_fwd_cases [of s sub "nat ?st" "nat (?en - ?st - ?m + 1)"]
    show ?thesis
    proof
      assume "find_fwd s sub (nat ?st) (nat (?en - ?st - ?m + 1)) = - 1"
      then show ?thesis by (simp add: eq)
    next
      assume "\<exists>j. find_fwd s sub (nat ?st) (nat (?en - ?st - ?m + 1)) = int j
                \<and> nat ?st \<le> j \<and> j < nat ?st + nat (?en - ?st - ?m + 1) \<and> match_at s sub j"
      then obtain j where j: "find_fwd s sub (nat ?st) (nat (?en - ?st - ?m + 1)) = int j"
        "nat ?st \<le> j" "j < nat ?st + nat (?en - ?st - ?m + 1)" by blast
      from window_index_bound [OF st en False j(2) j(3)] show ?thesis
        by (simp add: eq j(1))
    qed
  qed
qed

lemma str_rfind_range:
  "str_rfind s sub start stop = - 1
   \<or> (0 \<le> str_rfind s sub start stop
        \<and> str_rfind s sub start stop + int (length sub) \<le> int (length s))"
proof -
  let ?n = "int (length s)" and ?m = "int (length sub)"
  let ?st = "adjust_start start ?n" and ?en = "adjust_end stop ?n"
  show ?thesis
  proof (cases "?en - ?st < ?m")
    case True
    then show ?thesis by (simp add: str_rfind_def Let_def)
  next
    case False
    then have eq: "str_rfind s sub start stop
        = find_bwd s sub (nat ?st) (nat (?en - ?st - ?m + 1))"
      by (simp add: str_rfind_def Let_def)
    have st: "0 \<le> ?st" and en: "?en \<le> ?n"
      by (simp_all add: adjust_start_nonneg adjust_end_le)
    from find_bwd_cases [of s sub "nat ?st" "nat (?en - ?st - ?m + 1)"]
    show ?thesis
    proof
      assume "find_bwd s sub (nat ?st) (nat (?en - ?st - ?m + 1)) = - 1"
      then show ?thesis by (simp add: eq)
    next
      assume "\<exists>j. find_bwd s sub (nat ?st) (nat (?en - ?st - ?m + 1)) = int j
                \<and> nat ?st \<le> j \<and> j < nat ?st + nat (?en - ?st - ?m + 1) \<and> match_at s sub j"
      then obtain j where j: "find_bwd s sub (nat ?st) (nat (?en - ?st - ?m + 1)) = int j"
        "nat ?st \<le> j" "j < nat ?st + nat (?en - ?st - ?m + 1)" by blast
      from window_index_bound [OF st en False j(2) j(3)] show ?thesis
        by (simp add: eq j(1))
    qed
  qed
qed

lemma slice_in_range:
  "0 \<le> i \<Longrightarrow> i \<le> j \<Longrightarrow> j \<le> int (length s)
     \<Longrightarrow> slice s i j = take (nat (j - i)) (drop (nat i) s)"
  by (simp add: slice_def slice_index_def Let_def)

text \<open>One branch of a scanner: the equality test on two search results, each \<open>-1\<close> or
  a position of the read, gives a slice of the expected length.\<close>

lemma branch_length:
  fixes X Y sz :: int
  assumes X: "X = - 1 \<or> (0 \<le> X \<and> X + mr \<le> int (length ln))" and mr: "0 \<le> mr"
    and Y: "Y = - 1 \<or> (0 \<le> Y \<and> Y + ml \<le> int (length ln))"
    and eq: "X - Y = sz + int (length fl)" and sz: "0 < sz" and fl: "fl \<noteq> []"
  shows "int (length (slice ln (Y + int (length fl)) X)) = sz"
proof -
  have len: "1 \<le> int (length fl)" using fl by (cases fl) simp_all
  from Y have "- 1 \<le> Y" by auto
  with eq sz len have lo: "0 \<le> Y + int (length fl)" "Y + int (length fl) \<le> X" and "0 < X"
    by linarith+
  from X \<open>0 < X\<close> mr have "X \<le> int (length ln)" by auto
  with lo have "slice ln (Y + int (length fl)) X
      = take (nat (X - (Y + int (length fl)))) (drop (nat (Y + int (length fl))) ln)"
    by (simp add: slice_in_range)
  moreover have "nat (X - (Y + int (length fl))) \<le> length ln - nat (Y + int (length fl))"
    using \<open>X \<le> int (length ln)\<close> \<open>0 \<le> Y + int (length fl)\<close> by linarith
  ultimately show ?thesis using eq sz by simp
qed

lemma find_all_range:
  "find_all s sub = - 1
   \<or> (0 \<le> find_all s sub \<and> find_all s sub + int (length sub) \<le> int (length s))"
  unfolding find_all_def by (rule str_find_range)

lemma find_from_range:
  "find_from s sub start = - 1
   \<or> (0 \<le> find_from s sub start \<and> find_from s sub start + int (length sub) \<le> int (length s))"
  unfolding find_from_def by (rule str_find_range)

lemma rfind_all_range:
  "rfind_all s sub = - 1
   \<or> (0 \<le> rfind_all s sub \<and> rfind_all s sub + int (length sub) \<le> int (length s))"
  unfolding rfind_all_def by (rule str_rfind_range)

section \<open>Length of an extracted insert\<close>

lemma barcode_scan_length:
  assumes sz: "0 < sz" and l: "l \<noteq> []" and lrc: "lrc \<noteq> []"
    and found: "barcode_scan ln l r lrc rrc sz = Found ins"
  shows "int (length ins) = sz"
proof -
  have 1: "find_all ln r - find_all ln l = sz + int (length l)
      \<Longrightarrow> int (length (slice ln (find_all ln l + int (length l)) (find_all ln r))) = sz"
    by (rule branch_length [OF find_all_range _ find_all_range _ sz l]) simp_all
  have 2: "rfind_all ln r - find_all ln l = sz + int (length l)
      \<Longrightarrow> int (length (slice ln (find_all ln l + int (length l)) (rfind_all ln r))) = sz"
    by (rule branch_length [OF rfind_all_range _ find_all_range _ sz l]) simp_all
  have 3: "find_all ln rrc - find_all ln lrc = sz + int (length lrc)
      \<Longrightarrow> int (length (slice ln (find_all ln lrc + int (length lrc)) (find_all ln rrc))) = sz"
    by (rule branch_length [OF find_all_range _ find_all_range _ sz lrc]) simp_all
  have 4: "rfind_all ln rrc - find_all ln lrc = sz + int (length lrc)
      \<Longrightarrow> int (length (slice ln (find_all ln lrc + int (length lrc)) (rfind_all ln rrc))) = sz"
    by (rule branch_length [OF rfind_all_range _ find_all_range _ sz lrc]) simp_all
  from found 1 2 3 4 show ?thesis
    by (auto simp: barcode_scan_def Let_def split: if_splits)
qed

lemma barcode_scan_margin_length:
  assumes sz: "0 < sz" and l: "l \<noteq> []" and lrc: "lrc \<noteq> []"
    and found: "barcode_scan_margin ln l r loc margin lrc rrc loc_rc sz = Found ins"
  shows "int (length ins) = sz"
proof -
  have 1: "find_from ln r a - find_from ln l b = sz + int (length l)
      \<Longrightarrow> int (length (slice ln (find_from ln l b + int (length l)) (find_from ln r a))) = sz"
    for a b
    by (rule branch_length [OF find_from_range _ find_from_range _ sz l]) simp_all
  have 2: "str_rfind ln r a c - find_from ln l b = sz + int (length l)
      \<Longrightarrow> int (length (slice ln (find_from ln l b + int (length l)) (str_rfind ln r a c))) = sz"
    for a b c
    by (rule branch_length [OF str_rfind_range _ find_from_range _ sz l]) simp_all
  have 3: "find_from ln rrc a - find_from ln lrc b = sz + int (length lrc)
      \<Longrightarrow> int (length (slice ln (find_from ln lrc b + int (length lrc)) (find_from ln rrc a))) = sz"
    for a b
    by (rule branch_length [OF find_from_range _ find_from_range _ sz lrc]) simp_all
  have 4: "str_rfind ln rrc a c - find_from ln lrc b = sz + int (length lrc)
      \<Longrightarrow> int (length (slice ln (find_from ln lrc b + int (length lrc)) (str_rfind ln rrc a c))) = sz"
    for a b c
    by (rule branch_length [OF str_rfind_range _ find_from_range _ sz lrc]) simp_all
  from found 1 2 3 4 show ?thesis
    by (auto simp: barcode_scan_margin_def Let_def split: if_splits)
qed

lemma length_upper: "length (upper s) = length s"
  by (simp add: upper_def)

lemma length_reverse_complement: "length (reverse_complement s) = length s"
  by (simp add: reverse_complement_def)

lemma init_flanks_nonempty:
  "BCVleft \<noteq> [] \<Longrightarrow> left (init_flanks BCVleft BCVright) \<noteq> []"
  "BCVright \<noteq> [] \<Longrightarrow> left_revcomp (init_flanks BCVleft BCVright) \<noteq> []"
  by (simp_all add: init_flanks_def Let_def upper_def reverse_complement_def)

text \<open>
  Claim C3. For flanks initialised from non-empty left and right flank strings and a
  positive insert size, an insert returned by the unwindowed or by the windowed scanner
  has exactly the insert size as its length, whichever of the forward and
  reverse-complement branches returned it.
\<close>

theorem found_insert_has_insert_size:
  assumes "BCVleft \<noteq> []" and "BCVright \<noteq> []" and "0 < BCV_size"
  shows "(barcode_scan ln (left (init_flanks BCVleft BCVright))
            (right (init_flanks BCVleft BCVright))
            (left_revcomp (init_flanks BCVleft BCVright))
            (right_revcomp (init_flanks BCVleft BCVright)) BCV_size = Found ins
          \<longrightarrow> int (length ins) = BCV_size)
       \<and> (barcode_scan_margin ln (left (init_flanks BCVleft BCVright))
            (right (init_flanks BCVleft BCVright)) BCV_loc BCV_margin
            (left_revcomp (init_flanks BCVleft BCVright))
            (right_revcomp (init_flanks BCVleft BCVright)) BCV_loc_revcomp BCV_size = Found ins'
          \<longrightarrow> int (length ins') = BCV_size)"
proof (intro conjI impI)
  note ne = init_flanks_nonempty(1) [OF assms(1)] init_flanks_nonempty(2) [OF assms(2)]
  {
    assume "barcode_scan ln (left (init_flanks BCVleft BCVright))
            (right (init_flanks BCVleft BCVright))
            (left_revcomp (init_flanks BCVleft BCVright))
            (right_revcomp (init_flanks BCVleft BCVright)) BCV_size = Found ins"
    then show "int (length ins) = BCV_size"
      by (rule barcode_scan_length [OF assms(3) ne])
  }
  {
    assume "barcode_scan_margin ln (left (init_flanks BCVleft BCVright))
            (right (init_flanks BCVleft BCVright)) BCV_loc BCV_margin
            (left_revcomp (init_flanks BCVleft BCVright))
            (right_revcomp (init_flanks BCVleft BCVright)) BCV_loc_revcomp BCV_size = Found ins'"
    then show "int (length ins') = BCV_size"
      by (rule barcode_scan_margin_length [OF assms(3) ne])
  }
qed

theorem found_insert_has_insert_size_witness:
  "''gatc'' \<noteq> [] \<and> ''ccgg'' \<noteq> [] \<and> (0::int) < 4
   \<and> barcode_scan ''GATCAAAACCGG'' (left (init_flanks ''gatc'' ''ccgg''))
            (right (init_flanks ''gatc'' ''ccgg''))
            (left_revcomp (init_flanks ''gatc'' ''ccgg''))
            (right_revcomp (init_flanks ''gatc'' ''ccgg'')) 4 = Found ''AAAA''
   \<and> int (length ''AAAA'') = 4
   \<and> barcode_scan_margin ''TTGATCAAAACCGG'' (left (init_flanks ''gatc'' ''ccgg''))
            (right (init_flanks ''gatc'' ''ccgg'')) 6 2
            (left_revcomp (init_flanks ''gatc'' ''ccgg''))
            (right_revcomp (init_flanks ''gatc'' ''ccgg'')) 6 4 = Found ''AAAA''"
proof -
  have a: "barcode_scan ''GATCAAAACCGG'' (left (init_flanks ''gatc'' ''ccgg''))
            (right (init_flanks ''gatc'' ''ccgg''))
            (left_revcomp (init_flanks ''gatc'' ''ccgg''))
            (right_revcomp (init_flanks ''gatc'' ''ccgg'')) 4 = Found ''AAAA''"
    by code_simp
  have b: "barcode_scan_margin ''TTGATCAAAACCGG'' (left (init_flanks ''gatc'' ''ccgg''))
            (right (init_flanks ''gatc'' ''ccgg'')) 6 2
            (left_revcomp (init_flanks ''gatc'' ''ccgg''))
            (right_revcomp (init_flanks ''gatc'' ''ccgg'')) 6 4 = Found ''AAAA''"
    by code_simp
  have h: "''gatc'' \<noteq> []" "''ccgg'' \<noteq> []" "(0::int) < 4" by simp_all
  from found_insert_has_insert_size [OF h, where ln = "''GATCAAAACCGG''" and ins = "''AAAA''"
      and ins' = "''AAAA''" and BCV_loc = 6 and BCV_margin = 2 and BCV_loc_revcomp = 6] a b
  show ?thesis by simp
qed

section \<open>The unwindowed scanner and the five branches of the specification\<close>

lemma match_at_prefix: "match_at s sub i = prefix sub (drop i s)"
  unfolding match_at_def
proof
  assume "take (length sub) (drop i s) = sub"
  then show "prefix sub (drop i s)" by (metis take_is_prefix)
next
  assume "prefix sub (drop i s)"
  then obtain zs where "drop i s = sub @ zs" by (auto simp: prefix_def)
  then show "take (length sub) (drop i s) = sub" by simp
qed

lemma occurs_at_iff:
  "occurs_at s sub i = (i + length sub \<le> length s \<and> match_at s sub i)"
proof
  assume o: "occurs_at s sub i"
  then have p: "prefix sub (drop i s)" and i: "i \<le> length s" by (simp_all add: occurs_at_def)
  from p have "length sub \<le> length (drop i s)" by (rule prefix_length_le)
  with i have "i + length sub \<le> length s" by simp
  with p show "i + length sub \<le> length s \<and> match_at s sub i" by (simp add: match_at_prefix)
next
  assume "i + length sub \<le> length s \<and> match_at s sub i"
  then show "occurs_at s sub i" by (simp add: occurs_at_def match_at_prefix)
qed

lemma occurrences_eq:
  assumes "length sub \<le> length s"
  shows "occurrences s sub = filter (match_at s sub) [0..<length s - length sub + 1]"
proof -
  let ?k = "length s - length sub + 1"
  have "Suc (length s) = ?k + length sub" using assms by simp
  then have split: "[0..<Suc (length s)] = [0..<?k] @ [?k..<Suc (length s)]"
    using upt_add_eq_append [of 0 ?k "length sub"] by simp
  have low: "filter (occurs_at s sub) [0..<?k] = filter (match_at s sub) [0..<?k]"
    using assms by (intro filter_cong) (auto simp: occurs_at_iff)
  have high: "filter (occurs_at s sub) [?k..<Suc (length s)] = []"
    by (auto simp: filter_empty_conv occurs_at_iff)
  have "occurrences s sub = filter (occurs_at s sub) ([0..<?k] @ [?k..<Suc (length s)])"
    unfolding occurrences_def by (simp only: split [symmetric])
  also have "\<dots> = filter (occurs_at s sub) [0..<?k] @ filter (occurs_at s sub) [?k..<Suc (length s)]"
    by (rule filter_append)
  also have "\<dots> = filter (match_at s sub) [0..<?k]"
    by (simp only: low high append_Nil2)
  finally show ?thesis .
qed

lemma occurrences_short: "length s < length sub \<Longrightarrow> occurrences s sub = []"
  by (auto simp: occurrences_def filter_empty_conv occurs_at_iff)

lemma find_fwd_filter:
  "find_fwd s sub i k
     = (case filter (match_at s sub) [i..<i + k] of [] \<Rightarrow> - 1 | j # _ \<Rightarrow> int j)"
proof (induction k arbitrary: i)
  case 0
  then show ?case by simp
next
  case (Suc k)
  have "[i..<i + Suc k] = i # [Suc i..<Suc i + k]" by (simp add: upt_conv_Cons)
  then show ?case using Suc.IH [of "Suc i"] by simp
qed

lemma find_bwd_filter:
  "find_bwd s sub lo k
     = (case rev (filter (match_at s sub) [lo..<lo + k]) of [] \<Rightarrow> - 1 | j # _ \<Rightarrow> int j)"
  by (induction k) simp_all

lemma find_all_first_occurrence: "find_all s sub = first_occurrence s sub"
proof (cases "length s < length sub")
  case True
  then show ?thesis
    by (simp add: find_all_def str_find_def adjust_start_def adjust_end_def
        first_occurrence_def occurrences_short)
next
  case False
  then have le: "length sub \<le> length s" by simp
  then have k: "nat (int (length s) - int (length sub) + 1) = length s - length sub + 1"
    by linarith
  from le have "find_all s sub = find_fwd s sub 0 (length s - length sub + 1)"
    by (simp add: find_all_def str_find_def adjust_start_def adjust_end_def k)
  then show ?thesis
    using find_fwd_filter [of s sub 0 "length s - length sub + 1"]
    by (simp add: first_occurrence_def occurrences_eq [OF le])
qed

lemma rfind_all_last_occurrence: "rfind_all s sub = last_occurrence s sub"
proof (cases "length s < length sub")
  case True
  then show ?thesis
    by (simp add: rfind_all_def str_rfind_def adjust_start_def adjust_end_def
        last_occurrence_def occurrences_short)
next
  case False
  then have le: "length sub \<le> length s" by simp
  then have k: "nat (int (length s) - int (length sub) + 1) = length s - length sub + 1"
    by linarith
  from le have "rfind_all s sub = find_bwd s sub 0 (length s - length sub + 1)"
    by (simp add: rfind_all_def str_rfind_def adjust_start_def adjust_end_def k)
  then show ?thesis
    using find_bwd_filter [of s sub 0 "length s - length sub + 1"]
    by (simp add: last_occurrence_def occurrences_eq [OF le])
qed

lemma find_all_empty: "find_all s [] = 0"
proof -
  have "nat (int (length s) + 1) = Suc (length s)" by linarith
  then show ?thesis
    by (simp add: find_all_def str_find_def adjust_start_def adjust_end_def match_at_def)
qed

lemma left_end_nonneg: "0 \<le> find_all s sub + int (length sub)"
proof (cases sub)
  case Nil
  then show ?thesis by (simp add: find_all_empty)
next
  case (Cons c cs)
  with find_all_range [of s sub] show ?thesis by auto
qed

lemma branch_slice:
  fixes X sz :: int
  assumes X: "X = - 1 \<or> (0 \<le> X \<and> X + mr \<le> int (length ln))" and mr: "0 \<le> mr"
    and eq: "X - find_all ln fl = sz + int (length fl)" and sz: "0 \<le> sz"
  shows "slice ln (find_all ln fl + int (length fl)) X
       = substring_between ln (find_all ln fl + int (length fl)) X"
proof -
  have lo: "0 \<le> find_all ln fl + int (length fl)" by (rule left_end_nonneg)
  with eq sz have le: "find_all ln fl + int (length fl) \<le> X" by linarith
  with lo X mr have "X \<le> int (length ln)" by auto
  with lo le show ?thesis by (simp add: slice_in_range substring_between_def)
qed

text \<open>
  Claim C1. For every read, all flanks and every insert size that is not negative, the
  unwindowed scanner returns what the five branches of the specification return, taken
  in their order: first occurrence of the right flank against first occurrence of the
  left flank, then last occurrence of the right flank, then the same two tests on the
  reverse-complement flanks, then \<open>Missed\<close>; the first branch whose equality holds
  gives the result.
\<close>

theorem unwindowed_scan_precedence:
  assumes "0 \<le> BCV_size"
  shows "barcode_scan ln BCV_left BCV_right BCV_left_revcomp BCV_right_revcomp BCV_size
     = scan_spec ln BCV_left BCV_right BCV_left_revcomp BCV_right_revcomp BCV_size"
proof -
  note b = branch_slice [OF _ _ _ assms]
  have 1: "find_all ln r - find_all ln l = BCV_size + int (length l)
      \<Longrightarrow> slice ln (find_all ln l + int (length l)) (find_all ln r)
        = substring_between ln (find_all ln l + int (length l)) (find_all ln r)" for l r
    by (rule b [OF find_all_range]) simp_all
  have 2: "rfind_all ln r - find_all ln l = BCV_size + int (length l)
      \<Longrightarrow> slice ln (find_all ln l + int (length l)) (rfind_all ln r)
        = substring_between ln (find_all ln l + int (length l)) (rfind_all ln r)" for l r
    by (rule b [OF rfind_all_range]) simp_all
  show ?thesis
    unfolding barcode_scan_def scan_spec_def Let_def
      find_all_first_occurrence [symmetric] rfind_all_last_occurrence [symmetric]
    using 1 2 by simp
qed

theorem unwindowed_scan_precedence_witness:
  "(0::int) \<le> 4
   \<and> barcode_scan ''TTGATCAAAACCGGTT'' ''GATC'' ''CCGG'' ''CCGG'' ''GATC'' 4
       = scan_spec ''TTGATCAAAACCGGTT'' ''GATC'' ''CCGG'' ''CCGG'' ''GATC'' 4"
  using unwindowed_scan_precedence [of 4 "''TTGATCAAAACCGGTT''" "''GATC''" "''CCGG''"
      "''CCGG''" "''GATC''"]
  by simp

text \<open>
  Claim C8. With the flanks GATC and CCGG and insert size 4, the read
  GATCAAAACCGGTTTTGATCAAAACCGG is decided by the first branch: the first right flank
  is at 8, the first left flank at 0, and 8 - 0 = 4 + 4, so the outcome is
  \<open>Found AAAA\<close>. The last-occurrence branch is not reached.
\<close>

theorem scenario_B_first_branch:
  "init_flanks ''GATC'' ''CCGG''
     = \<lparr>left = ''GATC'', right = ''CCGG'', left_revcomp = ''CCGG'', right_revcomp = ''GATC''\<rparr>
   \<and> find_all ''GATCAAAACCGGTTTTGATCAAAACCGG'' ''CCGG'' = 8
   \<and> find_all ''GATCAAAACCGGTTTTGATCAAAACCGG'' ''GATC'' = 0
   \<and> barcode_scan ''GATCAAAACCGGTTTTGATCAAAACCGG'' ''GATC'' ''CCGG'' ''CCGG'' ''GATC'' 4
       = Found ''AAAA''"
  by code_simp

text \<open>
  Claim C8, as it is stated, fails. For that read the span between the first left
  flank and the last right flank is 24, not 8, and the outcome is not \<open>Missed\<close>.
\<close>

theorem scenario_B_counterexample:
  "rfind_all ''GATCAAAACCGGTTTTGATCAAAACCGG'' ''CCGG''
       - find_all ''GATCAAAACCGGTTTTGATCAAAACCGG'' ''GATC'' \<noteq> 4 + int (length ''GATC'')
   \<and> barcode_scan ''GATCAAAACCGGTTTTGATCAAAACCGG'' ''GATC'' ''CCGG'' ''CCGG'' ''GATC'' 4
       \<noteq> Missed"
  by code_simp

section \<open>A flank that is absent\<close>

text \<open>
  Claim C2. The read AAAAAAACCGG does not contain the left flank GATC, so its search
  returns \<open>-1\<close>; the right flank CCGG is found at 7, and 7 - (-1) = 4 + 4. The
  unwindowed scanner returns \<open>Found AAAA\<close> through its first branch, the detection
  function records an insert and no miss, and the windowed scanner with location 4 and
  margin 2 returns \<open>Found AAAA\<close> in the same way.
\<close>

theorem sentinel_false_match:
  "find_all ''AAAAAAACCGG'' ''GATC'' = - 1
   \<and> barcode_scan ''AAAAAAACCGG'' ''GATC'' ''CCGG'' ''CCGG'' ''GATC'' 4 = Found ''AAAA''
   \<and> barcode_detection [''AAAAAAACCGG''] ''GATC'' ''CCGG'' ''CCGG'' ''GATC'' 4
       = \<lparr>result = [''AAAA''], read_count = 1, no_constant_region = 0, size_list = [11]\<rparr>
   \<and> find_from ''AAAAAAACCGG'' ''GATC'' (4 - 2 - int (length ''GATC'')) = - 1
   \<and> barcode_scan_margin ''AAAAAAACCGG'' ''GATC'' ''CCGG'' 4 2 ''CCGG'' ''GATC'' 4 4
       = Found ''AAAA''"
  by code_simp

section \<open>The search window\<close>

text \<open>
  For a start that is not negative, the bounded searches of the code are the bounded
  searches of the specification.
\<close>

lemma filter_upt_interval:
  "filter (\<lambda>i. a \<le> i \<and> i < b) [0..<k] = [a..<min b k]"
proof (induction k)
  case 0
  then show ?case by simp
next
  case (Suc k)
  show ?case
  proof (cases "a \<le> k \<and> k < b")
    case True
    then have "min b (Suc k) = Suc k" "min b k = k" by simp_all
    with True Suc show ?thesis by simp
  next
    case False
    then have "[a..<min b (Suc k)] = [a..<min b k]"
      by (cases "k < b") (simp_all add: min_def)
    with False Suc show ?thesis by simp
  qed
qed

lemma occurrences_match:
  "occurrences s sub = filter (match_at s sub) [0..<Suc (length s) - length sub]"
proof (cases "length s < length sub")
  case True
  then show ?thesis by (simp add: occurrences_short)
next
  case False
  then have le: "length sub \<le> length s" by simp
  then have "length s - length sub + 1 = Suc (length s) - length sub" by simp
  with occurrences_eq [OF le] show ?thesis by (simp only:)
qed

lemma find_from_first_occurrence_from:
  assumes "0 \<le> start"
  shows "find_from s sub start = first_occurrence_from s sub start"
proof -
  let ?n = "length s" and ?m = "length sub"
  let ?k = "Suc ?n - ?m"
  have adj: "adjust_start start (int ?n) = start" "adjust_end (int ?n) (int ?n) = int ?n"
    using assms by (simp_all add: adjust_start_def adjust_end_def)
  have "filter (\<lambda>i. start \<le> int i) (occurrences s sub)
      = filter (match_at s sub) (filter (\<lambda>i. nat start \<le> i \<and> i < ?k) [0..<?k])"
    using assms unfolding occurrences_match filter_filter
    by (intro filter_cong) auto
  then have spec: "filter (\<lambda>i. start \<le> int i) (occurrences s sub)
      = filter (match_at s sub) [nat start..<?k]"
    by (simp only: filter_upt_interval min.idem)
  show ?thesis
  proof (cases "int ?n - start < int ?m")
    case True
    then have "?k \<le> nat start" using assms by linarith
    then have "[nat start..<?k] = []" by simp
    with True show ?thesis
      by (simp add: find_from_def str_find_def adj first_occurrence_from_def spec)
  next
    case False
    then have k: "nat start + nat (int ?n - start - int ?m + 1) = ?k"
      using assms by linarith
    from False have "find_from s sub start
        = find_fwd s sub (nat start) (nat (int ?n - start - int ?m + 1))"
      by (simp add: find_from_def str_find_def adj)
    then show ?thesis
      using find_fwd_filter [of s sub "nat start" "nat (int ?n - start - int ?m + 1)"]
      by (simp add: first_occurrence_from_def spec k)
  qed
qed

lemma str_rfind_last_occurrence_within:
  assumes "0 \<le> lo" and "0 \<le> hi"
  shows "str_rfind s sub lo hi = last_occurrence_within s sub lo hi"
proof -
  let ?n = "length s" and ?m = "length sub"
  let ?k = "Suc ?n - ?m"
  let ?en = "min hi (int ?n)"
  let ?b = "nat (?en - int ?m + 1)"
  have adj: "adjust_start lo (int ?n) = lo" "adjust_end hi (int ?n) = ?en"
    using assms by (simp_all add: adjust_start_def adjust_end_def min_def)
  have "filter (\<lambda>i. lo \<le> int i \<and> int i + int ?m \<le> hi) (occurrences s sub)
      = filter (match_at s sub) (filter (\<lambda>i. nat lo \<le> i \<and> i < ?b) [0..<?k])"
    using assms unfolding occurrences_match filter_filter
    by (intro filter_cong) auto
  moreover have "min ?b ?k = ?b" by linarith
  ultimately have spec: "filter (\<lambda>i. lo \<le> int i \<and> int i + int ?m \<le> hi) (occurrences s sub)
      = filter (match_at s sub) [nat lo..<?b]"
    by (simp only: filter_upt_interval)
  show ?thesis
  proof (cases "?en - lo < int ?m")
    case True
    then have "?b \<le> nat lo" using assms by linarith
    then have "[nat lo..<?b] = []" by simp
    with True show ?thesis
      by (simp add: str_rfind_def adj last_occurrence_within_def spec)
  next
    case False
    then have k: "nat lo + nat (?en - lo - int ?m + 1) = ?b"
      using assms by linarith
    from False have "str_rfind s sub lo hi
        = find_bwd s sub (nat lo) (nat (?en - lo - int ?m + 1))"
      by (simp add: str_rfind_def adj)
    then show ?thesis
      using find_bwd_filter [of s sub "nat lo" "nat (?en - lo - int ?m + 1)"]
      by (simp add: last_occurrence_within_def spec k)
  qed
qed

text \<open>
  When no search start is negative, the margin is not negative and the
  reverse-complement flanks have the lengths of the forward flanks they replace, the
  windowed scanner is the scanner of section 4.2 of the specification.
\<close>

lemma branch_slice_window:
  fixes X Y sz :: int
  assumes X: "X = - 1 \<or> (0 \<le> X \<and> X + mr \<le> int (length ln))" and mr: "0 \<le> mr"
    and Y: "Y = - 1 \<or> (0 \<le> Y \<and> Y + ml \<le> int (length ln))"
    and eq: "X - Y = sz + int (length fl)" and sz: "0 \<le> sz" and fl: "fl \<noteq> []"
  shows "slice ln (Y + int (length fl)) X = substring_between ln (Y + int (length fl)) X"
proof -
  have len: "1 \<le> int (length fl)" using fl by (cases fl) simp_all
  from Y have "- 1 \<le> Y" by auto
  with len have lo: "0 \<le> Y + int (length fl)" by linarith
  with eq sz have le: "Y + int (length fl) \<le> X" by linarith
  with lo X mr have "X \<le> int (length ln)" by auto
  with lo le show ?thesis by (simp add: slice_in_range substring_between_def)
qed

lemma windowed_scan_agrees:
  assumes sz: "0 \<le> sz" and l: "l \<noteq> []" and lrc: "lrc \<noteq> []"
    and len_l: "length lrc = length l" and len_r: "length rrc = length r"
    and margin: "0 \<le> margin"
    and fwd: "0 \<le> loc - margin - int (length l)"
    and rc: "0 \<le> loc_rc - margin - int (length l)"
  shows "barcode_scan_margin ln l r loc margin lrc rrc loc_rc sz
       = scan_windowed_spec ln l r loc margin lrc rrc loc_rc sz"
proof -
  have s1: "0 \<le> loc - margin + sz" and s2: "0 \<le> loc_rc - margin + sz"
    and e1: "0 \<le> loc + margin + sz + int (length r)"
    and e2: "0 \<le> loc_rc + margin + sz + int (length r)"
    using sz margin fwd rc by linarith+
  have A: "find_from ln r (loc - margin + sz) = first_occurrence_from ln r (loc - margin + sz)"
    by (rule find_from_first_occurrence_from [OF s1])
  have B: "find_from ln l (loc - margin - int (length l))
      = first_occurrence_from ln l (loc - margin - int (length l))"
    by (rule find_from_first_occurrence_from [OF fwd])
  have C: "str_rfind ln r (loc - margin + sz) (loc + margin + sz + int (length r))
      = last_occurrence_within ln r (loc - margin + sz) (loc + margin + sz + int (length r))"
    by (rule str_rfind_last_occurrence_within [OF s1 e1])
  have D: "find_from ln rrc (loc_rc - margin + sz)
      = first_occurrence_from ln rrc (loc_rc - margin + sz)"
    by (rule find_from_first_occurrence_from [OF s2])
  have E: "find_from ln lrc (loc_rc - margin - int (length l))
      = first_occurrence_from ln lrc (loc_rc - margin - int (length lrc))"
    using find_from_first_occurrence_from [OF rc] by (simp only: len_l)
  have F: "str_rfind ln rrc (loc_rc - margin + sz) (loc_rc + margin + sz + int (length r))
      = last_occurrence_within ln rrc (loc_rc - margin + sz)
          (loc_rc + margin + sz + int (length rrc))"
    using str_rfind_last_occurrence_within [OF s2 e2] by (simp only: len_r)
  note b = branch_slice_window [OF _ _ _ _ sz]
  have 1: "find_from ln r a - find_from ln l c = sz + int (length l)
      \<Longrightarrow> slice ln (find_from ln l c + int (length l)) (find_from ln r a)
        = substring_between ln (find_from ln l c + int (length l)) (find_from ln r a)"
    for a c
    by (rule b [OF find_from_range _ find_from_range _ l]) simp_all
  have 2: "str_rfind ln r a d - find_from ln l c = sz + int (length l)
      \<Longrightarrow> slice ln (find_from ln l c + int (length l)) (str_rfind ln r a d)
        = substring_between ln (find_from ln l c + int (length l)) (str_rfind ln r a d)"
    for a c d
    by (rule b [OF str_rfind_range _ find_from_range _ l]) simp_all
  have 3: "find_from ln rrc a - find_from ln lrc c = sz + int (length lrc)
      \<Longrightarrow> slice ln (find_from ln lrc c + int (length lrc)) (find_from ln rrc a)
        = substring_between ln (find_from ln lrc c + int (length lrc)) (find_from ln rrc a)"
    for a c
    by (rule b [OF find_from_range _ find_from_range _ lrc]) simp_all
  have 4: "str_rfind ln rrc a d - find_from ln lrc c = sz + int (length lrc)
      \<Longrightarrow> slice ln (find_from ln lrc c + int (length lrc)) (str_rfind ln rrc a d)
        = substring_between ln (find_from ln lrc c + int (length lrc)) (str_rfind ln rrc a d)"
    for a c d
    by (rule b [OF str_rfind_range _ find_from_range _ lrc]) simp_all
  show ?thesis
    unfolding barcode_scan_margin_def scan_windowed_spec_def Let_def
      A [symmetric] B [symmetric] C [symmetric] D [symmetric] E [symmetric] F [symmetric]
    using 1 2 3 4 by simp
qed

text \<open>
  Claim C6. With left flank GATC and right flank CCGGAA the reverse-complement flanks
  are TTCCGG and GATC. The read CCTTCCGGAAAAGATC carries the insert AAAA at position 8
  between them. With location 8 on both strands and margin 1, the searches bounded as
  the specification words them find the insert; the windowed scanner starts the search
  for the reverse-complement left flank at 8 - 1 - 4 = 3 instead of 8 - 1 - 6 = 1,
  since it subtracts the length of the forward left flank, and returns \<open>Missed\<close>.
\<close>

theorem revcomp_window_bounds_differ:
  "init_flanks ''GATC'' ''CCGGAA''
     = \<lparr>left = ''GATC'', right = ''CCGGAA'', left_revcomp = ''TTCCGG'',
        right_revcomp = ''GATC''\<rparr>
   \<and> barcode_scan_margin ''CCTTCCGGAAAAGATC'' ''GATC'' ''CCGGAA'' 8 1 ''TTCCGG'' ''GATC'' 8 4
       = Missed
   \<and> scan_windowed_spec ''CCTTCCGGAAAAGATC'' ''GATC'' ''CCGGAA'' 8 1 ''TTCCGG'' ''GATC'' 8 4
       = Found ''AAAA''"
  by code_simp

text \<open>
  A start outside the read: a negative start counts from the end of the read, and a start
  past the end finds nothing, so that a read whose right-flank searches both start past
  its end is \<open>Missed\<close>.
\<close>

lemma adjust_start_wrap:
  "start < 0 \<Longrightarrow> adjust_start (max 0 (n + start)) n = adjust_start start n"
  by (simp add: adjust_start_def max_def add.commute)

lemma find_from_negative_start:
  "start < 0 \<Longrightarrow> find_from ln sub start = find_from ln sub (max 0 (int (length ln) + start))"
  unfolding find_from_def str_find_def Let_def by (simp only: adjust_start_wrap)

lemma str_rfind_negative_start:
  "start < 0 \<Longrightarrow> str_rfind ln sub start stop = str_rfind ln sub (max 0 (int (length ln) + start)) stop"
  unfolding str_rfind_def Let_def by (simp only: adjust_start_wrap)

lemma str_find_past_end: "int (length ln) < start \<Longrightarrow> str_find ln sub start stop = - 1"
proof -
  assume a: "int (length ln) < start"
  then have "adjust_start start (int (length ln)) = start" by (simp add: adjust_start_def)
  moreover have "adjust_end stop (int (length ln)) \<le> int (length ln)" by (simp add: adjust_end_le)
  ultimately have "adjust_end stop (int (length ln)) - adjust_start start (int (length ln)) < int (length sub)"
    using a by linarith
  then show ?thesis by (simp only: str_find_def Let_def if_True)
qed

lemma find_from_past_end: "int (length ln) < start \<Longrightarrow> find_from ln sub start = - 1"
  unfolding find_from_def by (rule str_find_past_end)

lemma str_rfind_past_end: "int (length ln) < start \<Longrightarrow> str_rfind ln sub start stop = - 1"
proof -
  assume a: "int (length ln) < start"
  then have "adjust_start start (int (length ln)) = start" by (simp add: adjust_start_def)
  moreover have "adjust_end stop (int (length ln)) \<le> int (length ln)" by (simp add: adjust_end_le)
  ultimately have "adjust_end stop (int (length ln)) - adjust_start start (int (length ln)) < int (length sub)"
    using a by linarith
  then show ?thesis by (simp only: str_rfind_def Let_def if_True)
qed

lemma find_from_lower: "- 1 \<le> find_from s sub start"
  using find_from_range [of s sub start] by auto

lemma barcode_scan_margin_past_end:
  assumes sz: "0 < sz"
    and fwd: "int (length ln) < loc - margin + sz"
    and rc: "int (length ln) < loc_rc - margin + sz"
  shows "barcode_scan_margin ln l r loc margin lrc rrc loc_rc sz = Missed"
proof -
  have A: "find_from ln r (loc - margin + sz) = - 1" by (rule find_from_past_end [OF fwd])
  have C: "str_rfind ln r (loc - margin + sz) c = - 1" for c by (rule str_rfind_past_end [OF fwd])
  have D: "find_from ln rrc (loc_rc - margin + sz) = - 1" by (rule find_from_past_end [OF rc])
  have F: "str_rfind ln rrc (loc_rc - margin + sz) c = - 1" for c by (rule str_rfind_past_end [OF rc])
  have B: "(- 1 - find_from ln l b = sz + int (length l)) = False" for b
    using find_from_lower [of ln l b] sz by simp
  have E: "(- 1 - find_from ln lrc b = sz + int (length lrc)) = False" for b
    using find_from_lower [of ln lrc b] sz by simp
  show ?thesis
    unfolding barcode_scan_margin_def Let_def A C D F B E by (simp only: if_False)
qed

text \<open>
  Claim C7. With location 7, margin 5 and left flank GATC the search for the left flank
  starts at 7 - 5 - 4 = -2. The read AAAGATCAAAACCGG carries the left flank at 3 and the
  insert AAAA exactly at position 7. The search of line 364 is handed the start -2,
  which counts from the end of the read, so it looks from position 13 on and finds
  nothing, where a search from position 0 finds the flank at 3. The windowed scanner
  returns \<open>Missed\<close>; the scanner of section 4.2 of the specification and the unwindowed
  scanner both return \<open>Found AAAA\<close>. In the same way the read GATCAAAACCGG with
  location 4 is found with margin 0 and missed with margin 1.
\<close>

theorem negative_start_misses_insert:
  "7 - 5 - int (length ''GATC'') = - 2
   \<and> find_from ''AAAGATCAAAACCGG'' ''GATC'' (- 2) = - 1
   \<and> find_from ''AAAGATCAAAACCGG'' ''GATC'' 13 = - 1
   \<and> find_from ''AAAGATCAAAACCGG'' ''GATC'' 0 = 3
   \<and> barcode_scan_margin ''AAAGATCAAAACCGG'' ''GATC'' ''CCGG'' 7 5 ''CCGG'' ''GATC'' 7 4
       = Missed
   \<and> scan_windowed_spec ''AAAGATCAAAACCGG'' ''GATC'' ''CCGG'' 7 5 ''CCGG'' ''GATC'' 7 4
       = Found ''AAAA''
   \<and> barcode_scan ''AAAGATCAAAACCGG'' ''GATC'' ''CCGG'' ''CCGG'' ''GATC'' 4 = Found ''AAAA''
   \<and> barcode_scan_margin ''GATCAAAACCGG'' ''GATC'' ''CCGG'' 4 0 ''CCGG'' ''GATC'' 4 4
       = Found ''AAAA''
   \<and> barcode_scan_margin ''GATCAAAACCGG'' ''GATC'' ''CCGG'' 4 1 ''CCGG'' ''GATC'' 4 4
       = Missed"
  by code_simp

section \<open>The read loop\<close>

lemma read_step_read_count: "read_count (read_step scan st line) = read_count st + 1"
  by (simp add: read_step_def Let_def split: match_outcome.splits)

lemma read_step_size_list: "size_list (read_step scan st line) = size_list st @ [length line]"
  by (simp add: read_step_def Let_def split: match_outcome.splits)

lemma read_step_outcome:
  "(\<exists>BCV. result (read_step scan st line) = result st @ [BCV]
          \<and> no_constant_region (read_step scan st line) = no_constant_region st)
   \<or> (result (read_step scan st line) = result st
          \<and> no_constant_region (read_step scan st line) = no_constant_region st + 1)"
  by (simp add: read_step_def Let_def split: match_outcome.splits)

lemma read_step_total:
  "length (result (read_step scan st line)) + no_constant_region (read_step scan st line)
     = length (result st) + no_constant_region st + 1"
  by (simp add: read_step_def Let_def split: match_outcome.splits)

text \<open>The loop, started in any state: the state is generalised, since every step
  changes it.\<close>

lemma loop_read_count:
  "read_count (foldl (read_step scan) st reads) = read_count st + length reads"
  by (induction reads arbitrary: st) (simp_all add: read_step_read_count)

lemma loop_size_list:
  "size_list (foldl (read_step scan) st reads) = size_list st @ map length reads"
  by (induction reads arbitrary: st) (simp_all add: read_step_size_list)

lemma loop_total:
  "length (result (foldl (read_step scan) st reads))
     + no_constant_region (foldl (read_step scan) st reads)
     = length (result st) + no_constant_region st + length reads"
  by (induction reads arbitrary: st) (simp_all add: read_step_total)

text \<open>
  Claim C4. After a full pass of either detection function over a finite list of reads,
  the number of extracted inserts plus the miss counter equals the read counter, which
  is the number of reads. One step of the loop adds one to the read counter and either
  appends exactly one insert and leaves the miss counter, or leaves the inserts and adds
  one to the miss counter. On the empty list both functions return zero counters and
  empty lists.
\<close>

theorem report_invariant:
  "length (result (barcode_detection reads l r lrc rrc sz))
       + no_constant_region (barcode_detection reads l r lrc rrc sz)
     = read_count (barcode_detection reads l r lrc rrc sz)
   \<and> length (result (barcode_detection_margin reads l r loc margin lrc rrc loc_rc sz))
       + no_constant_region (barcode_detection_margin reads l r loc margin lrc rrc loc_rc sz)
     = read_count (barcode_detection_margin reads l r loc margin lrc rrc loc_rc sz)
   \<and> read_count (barcode_detection reads l r lrc rrc sz) = length reads
   \<and> read_count (barcode_detection_margin reads l r loc margin lrc rrc loc_rc sz) = length reads
   \<and> read_count (read_step scan st line) = read_count st + 1
   \<and> ((\<exists>BCV. result (read_step scan st line) = result st @ [BCV]
             \<and> no_constant_region (read_step scan st line) = no_constant_region st)
        \<or> (result (read_step scan st line) = result st
             \<and> no_constant_region (read_step scan st line) = no_constant_region st + 1))
   \<and> barcode_detection [] l r lrc rrc sz
        = \<lparr>result = [], read_count = 0, no_constant_region = 0, size_list = []\<rparr>
   \<and> barcode_detection_margin [] l r loc margin lrc rrc loc_rc sz
        = \<lparr>result = [], read_count = 0, no_constant_region = 0, size_list = []\<rparr>"
  using read_step_outcome [of scan st line]
  by (simp add: barcode_detection_def barcode_detection_margin_def loop_total loop_read_count
      read_step_read_count empty_report_def)

text \<open>
  Claim C10. The returned length list is the list of the lengths of the reads, in the
  order of the reads, whatever the outcome of each read: it has as many entries as the
  read counter counts, and one step of the loop appends the length of its read.
\<close>

theorem length_list_per_read:
  "size_list (barcode_detection reads l r lrc rrc sz) = map length reads
   \<and> size_list (barcode_detection_margin reads l r loc margin lrc rrc loc_rc sz)
       = map length reads
   \<and> length (size_list (barcode_detection reads l r lrc rrc sz))
       = read_count (barcode_detection reads l r lrc rrc sz)
   \<and> length (size_list (barcode_detection_margin reads l r loc margin lrc rrc loc_rc sz))
       = read_count (barcode_detection_margin reads l r loc margin lrc rrc loc_rc sz)
   \<and> size_list (read_step scan st line) = size_list st @ [length line]"
  by (simp add: barcode_detection_def barcode_detection_margin_def loop_size_list
      loop_read_count read_step_size_list empty_report_def)

section \<open>Choice of the detection function\<close>

text \<open>
  Claim C5. With location 0, margin 5 and reverse-complement location 10 all supplied,
  the test \<^verbatim>\<open>not BCV_loc\<close> holds, and the run is the unwindowed one: on the read
  GATCAAAACCGG it extracts AAAA, where the windowed detection function with these
  values records a miss.
\<close>

theorem zero_location_runs_unwindowed:
  "py_not (Some 0)
   \<and> detect [''GATCAAAACCGG''] ''GATC'' ''CCGG'' (Some 0) (Some 5) ''CCGG'' ''GATC'' (Some 10) 4
       = barcode_detection [''GATCAAAACCGG''] ''GATC'' ''CCGG'' ''CCGG'' ''GATC'' 4
   \<and> detect [''GATCAAAACCGG''] ''GATC'' ''CCGG'' (Some 0) (Some 5) ''CCGG'' ''GATC'' (Some 10) 4
       \<noteq> barcode_detection_margin [''GATCAAAACCGG''] ''GATC'' ''CCGG'' 0 5 ''CCGG'' ''GATC'' 10 4"
  by code_simp

lemma detection_read_count:
  "read_count (barcode_detection reads l r lrc rrc sz) = length reads"
  "read_count (barcode_detection_margin reads l r a b lrc rrc c sz) = length reads"
  by (simp_all add: barcode_detection_def barcode_detection_margin_def loop_read_count
      empty_report_def)

lemma detection_total:
  "length (result (barcode_detection reads l r lrc rrc sz))
     + no_constant_region (barcode_detection reads l r lrc rrc sz) = length reads"
  "length (result (barcode_detection_margin reads l r a b lrc rrc c sz))
     + no_constant_region (barcode_detection_margin reads l r a b lrc rrc c sz) = length reads"
  by (simp_all add: barcode_detection_def barcode_detection_margin_def loop_total
      empty_report_def)

lemma detect_read_count:
  "read_count (detect reads l r loc margin lrc rrc loc_rc sz) = length reads"
  by (cases loc; cases margin; cases loc_rc) (simp_all add: detect_def detection_read_count)

lemma detect_total:
  "length (result (detect reads l r loc margin lrc rrc loc_rc sz))
     + no_constant_region (detect reads l r loc margin lrc rrc loc_rc sz) = length reads"
  by (cases loc; cases margin; cases loc_rc) (simp_all add: detect_def detection_total)

lemma detect_missing_field:
  "detect reads l r None margin lrc rrc loc_rc sz = barcode_detection reads l r lrc rrc sz"
  "detect reads l r loc None lrc rrc loc_rc sz = barcode_detection reads l r lrc rrc sz"
  "detect reads l r loc margin lrc rrc None sz = barcode_detection reads l r lrc rrc sz"
  by (simp_all add: detect_def py_not_def)

text \<open>
  Claim C9, as the code has it. No flank strings, insert size or window arguments are
  refused: for all of them every read is scanned, the read counter is the number of
  reads and every read is an insert or a miss. A run in which one of the three window
  arguments is missing is the unwindowed run.
\<close>

theorem no_spec_validation:
  "read_count (detect reads l r loc margin lrc rrc loc_rc sz) = length reads
   \<and> length (result (detect reads l r loc margin lrc rrc loc_rc sz))
       + no_constant_region (detect reads l r loc margin lrc rrc loc_rc sz) = length reads
   \<and> detect reads l r None margin lrc rrc loc_rc sz = barcode_detection reads l r lrc rrc sz
   \<and> detect reads l r loc None lrc rrc loc_rc sz = barcode_detection reads l r lrc rrc sz
   \<and> detect reads l r loc margin lrc rrc None sz = barcode_detection reads l r lrc rrc sz"
  by (simp only: detect_read_count detect_total detect_missing_field simp_thms)

text \<open>
  Claim C9, as it is stated, fails. With empty flanks and insert size 0 the read ACGT is scanned and an empty insert is
  extracted; with insert size -1 and a missing reverse-complement location the read is
  scanned and counted as a miss.
\<close>

theorem invalid_spec_counterexample:
  "detect [''ACGT''] [] [] None (Some 5) [] [] None 0
     = \<lparr>result = [[]], read_count = 1, no_constant_region = 0, size_list = [4]\<rparr>
   \<and> detect [''ACGT''] ''GATC'' ''CCGG'' (Some 3) (Some 5) ''CCGG'' ''GATC'' None (- 1)
     = \<lparr>result = [], read_count = 1, no_constant_region = 1, size_list = [4]\<rparr>"
  by code_simp

end
